theory Spec2Isabelle
  imports Main "HOL-Library.Word"
begin

section \<open>JavaScript strings\<close>

text \<open>
  A JavaScript string is a sequence of UTF-16 code units. \<^verbatim>\<open>text[i]\<close> and
  \<^verbatim>\<open>text.length\<close> count code units; \<^verbatim>\<open>for (let char of text)\<close> walks code
  points, so that a high surrogate followed by a low surrogate comes out as one string of two
  units. The regular expressions of the source have no \<^verbatim>\<open>u\<close> flag: they match a
  string when one of its code units is in the class.
\<close>

type_synonym unit16 = "16 word"
type_synonym jsstring = "unit16 list"

definition isHighSurrogate :: "unit16 \<Rightarrow> bool" where
  "isHighSurrogate u = (0xD800 \<le> u \<and> u \<le> 0xDBFF)"

definition isLowSurrogate :: "unit16 \<Rightarrow> bool" where
  "isLowSurrogate u = (0xDC00 \<le> u \<and> u \<le> 0xDFFF)"

text \<open>The string iterator behind \<^verbatim>\<open>for (let char of text)\<close>.\<close>

fun codePoints :: "jsstring \<Rightarrow> jsstring list" where
  "codePoints [] = []"
| "codePoints [u] = [ [u] ]"
| "codePoints (u # v # us) =
     (if isHighSurrogate u \<and> isLowSurrogate v then [u, v] # codePoints us
      else [u] # codePoints (v # us))"

text \<open>The indexed loop \<^verbatim>\<open>for (let i = 0; i < text.length; i++) { const char = text[i]; ... }\<close>.\<close>

definition codeUnits :: "jsstring \<Rightarrow> jsstring list" where
  "codeUnits s = map (\<lambda>u. [u]) s"

text \<open>
  ECMAScript's \<^verbatim>\<open>\s\<close> and \<^verbatim>\<open>String.prototype.trim\<close> use one set: WhiteSpace
  (TAB, VT, FF, SP, NBSP, ZWNBSP and the Unicode space separators) and LineTerminator
  (LF, CR, LS, PS).
\<close>

definition isWhiteSpace :: "unit16 \<Rightarrow> bool" where
  "isWhiteSpace u =
     (u = 0x09 \<or> u = 0x0A \<or> u = 0x0B \<or> u = 0x0C \<or> u = 0x0D \<or> u = 0x20 \<or> u = 0xA0
      \<or> u = 0x1680 \<or> (0x2000 \<le> u \<and> u \<le> 0x200A) \<or> u = 0x2028 \<or> u = 0x2029
      \<or> u = 0x202F \<or> u = 0x205F \<or> u = 0x3000 \<or> u = 0xFEFF)"

definition trim :: "jsstring \<Rightarrow> jsstring" where
  "trim s = rev (dropWhile isWhiteSpace (rev (dropWhile isWhiteSpace s)))"

text \<open>\<^verbatim>\<open>regex.test(s)\<close> for a regular expression that is one character class.\<close>

definition test :: "(unit16 \<Rightarrow> bool) \<Rightarrow> jsstring \<Rightarrow> bool" where
  "test cls s = list_ex cls s"

section \<open>Character classes of the segmenter\<close>

text \<open>\<^verbatim>\<open>/[\uAC00-\uD7AF\u1100-\u11FF\u3130-\u318F]/\<close>\<close>

definition koreanRegex :: "unit16 \<Rightarrow> bool" where
  "koreanRegex u =
     ((0xAC00 \<le> u \<and> u \<le> 0xD7AF) \<or> (0x1100 \<le> u \<and> u \<le> 0x11FF) \<or> (0x3130 \<le> u \<and> u \<le> 0x318F))"

text \<open>\<^verbatim>\<open>/[0-9\s\.,!?@#$%^&*()_\-+=:;"'<>\[\]{}]/\<close>\<close>

definition neutralRegex :: "unit16 \<Rightarrow> bool" where
  "neutralRegex u =
     ((0x30 \<le> u \<and> u \<le> 0x39) \<or> isWhiteSpace u
      \<or> u = 0x2E \<or> u = 0x2C \<or> u = 0x21 \<or> u = 0x3F \<or> u = 0x40 \<or> u = 0x23 \<or> u = 0x24
      \<or> u = 0x25 \<or> u = 0x5E \<or> u = 0x26 \<or> u = 0x2A \<or> u = 0x28 \<or> u = 0x29 \<or> u = 0x5F
      \<or> u = 0x2D \<or> u = 0x2B \<or> u = 0x3D \<or> u = 0x3A \<or> u = 0x3B \<or> u = 0x22 \<or> u = 0x27
      \<or> u = 0x3C \<or> u = 0x3E \<or> u = 0x5B \<or> u = 0x5D \<or> u = 0x7B \<or> u = 0x7D)"

text \<open>\<^verbatim>\<open>/[.!?\n]/\<close>\<close>

definition sentenceEndRegex :: "unit16 \<Rightarrow> bool" where
  "sentenceEndRegex u = (u = 0x2E \<or> u = 0x21 \<or> u = 0x3F \<or> u = 0x0A)"

text \<open>
  The tags are the strings \<^verbatim>\<open>'unknown'\<close>, \<^verbatim>\<open>'en'\<close>, \<^verbatim>\<open>'ko'\<close> and
  \<^verbatim>\<open>'neutral'\<close> of the source: a segment's \<^verbatim>\<open>type\<close> and a character's
  \<^verbatim>\<open>charType\<close> are compared with each other.
\<close>

datatype tag = Unknown | En | Ko | Neutral

record segment =
  seg_text :: jsstring
  seg_type :: tag

definition charType :: "jsstring \<Rightarrow> tag" where
  "charType ch =
     (if test koreanRegex ch then Ko else if test neutralRegex ch then Neutral else En)"

definition newSegment :: segment where
  "newSegment = \<lparr>seg_text = [], seg_type = Unknown\<rparr>"

section \<open>parseText of main.js\<close>

text \<open>One round of the loop, on the pair of \<^verbatim>\<open>segments\<close> and \<^verbatim>\<open>currentSegment\<close>.\<close>

definition scanChar :: "segment list \<times> segment \<Rightarrow> jsstring \<Rightarrow> segment list \<times> segment" where
  "scanChar sc ch =
     (let segments = fst sc; currentSegment = snd sc; ct = charType ch in
      if seg_type currentSegment = Unknown then
        (segments, \<lparr>seg_text = seg_text currentSegment @ ch,
                    seg_type = (if ct = Neutral then En else ct)\<rparr>)
      else if ct = Neutral then
        (segments, currentSegment\<lparr>seg_text := seg_text currentSegment @ ch\<rparr>)
      else if ct = seg_type currentSegment then
        (segments, currentSegment\<lparr>seg_text := seg_text currentSegment @ ch\<rparr>)
      else
        ((if length (trim (seg_text currentSegment)) > 0 then segments @ [currentSegment]
          else segments),
         \<lparr>seg_text = ch, seg_type = ct\<rparr>))"

definition pushLast :: "segment list \<times> segment \<Rightarrow> segment list" where
  "pushLast sc =
     (if length (trim (seg_text (snd sc))) > 0 then fst sc @ [snd sc] else fst sc)"

definition parseText :: "jsstring \<Rightarrow> segment list" where
  "parseText text = pushLast (foldl scanChar ([], newSegment) (codePoints text))"

section \<open>parseText of the sentence-splitting revisions\<close>

text \<open>
  The two later revisions of the page share one \<^verbatim>\<open>parseText\<close>: it walks the code units,
  closes the segment after a sentence end and filters the blank segments at the end.
\<close>

definition scanChar_sb :: "segment list \<times> segment \<Rightarrow> jsstring \<Rightarrow> segment list \<times> segment" where
  "scanChar_sb sc ch =
     (let segments = fst sc;
          ct = charType ch;
          currentSegment =
            (if seg_type (snd sc) = Unknown
             then (snd sc)\<lparr>seg_type := (if ct = Neutral then En else ct)\<rparr>
             else snd sc);
          typeChanged = (ct \<noteq> Neutral \<and> ct \<noteq> seg_type currentSegment)
      in
      if typeChanged then
        ((if length (seg_text currentSegment) > 0 then segments @ [currentSegment]
          else segments),
         \<lparr>seg_text = ch, seg_type = ct\<rparr>)
      else if test sentenceEndRegex ch then
        (segments @ [currentSegment\<lparr>seg_text := seg_text currentSegment @ ch\<rparr>], newSegment)
      else
        (segments, currentSegment\<lparr>seg_text := seg_text currentSegment @ ch\<rparr>))"

definition pushRemaining :: "segment list \<times> segment \<Rightarrow> segment list" where
  "pushRemaining sc = (if length (seg_text (snd sc)) > 0 then fst sc @ [snd sc] else fst sc)"

text \<open>The array \<^verbatim>\<open>segments\<close> as it is before the final filter.\<close>

definition closedSegments_sb :: "jsstring \<Rightarrow> segment list" where
  "closedSegments_sb text = pushRemaining (foldl scanChar_sb ([], newSegment) (codeUnits text))"

definition parseText_sb :: "jsstring \<Rightarrow> segment list" where
  "parseText_sb text = filter (\<lambda>s. length (trim (seg_text s)) > 0) (closedSegments_sb text)"

text \<open>
  \<open>weave gaps texts\<close> is the string made of the texts in order with one gap before each of
  them and one after the last: \<open>gaps\<close> has one element more than \<open>texts\<close>.
\<close>

fun weave :: "'a list list \<Rightarrow> 'a list list \<Rightarrow> 'a list" where
  "weave (g # gs) (t # ts) = g @ t @ weave gs ts"
| "weave gs [] = concat gs"
| "weave [] ts = concat ts"

section \<open>The page: module state, DOM and speech engine\<close>

record voice =
  voice_name :: jsstring
  voice_lang :: jsstring
  voice_default :: bool

text \<open>
  The callbacks that \<^verbatim>\<open>speak\<close> attaches to an utterance, one constructor for each closure
  of the source: \<open>Cleanup\<close> is \<^verbatim>\<open>() => { setSpeakingState(false); }\<close> of main.js;
  \<open>StartAt\<close>, \<open>EndAt_tr\<close> and \<open>ErrorAt_tr\<close> are \<^verbatim>\<open>onstart\<close>, \<^verbatim>\<open>onend\<close> and
  \<^verbatim>\<open>onerror\<close> of the translating revision, \<open>StartAt\<close>, \<open>EndAt_hl\<close> and \<open>Error_hl\<close>
  those of the highlighting revision. The number is the captured \<^verbatim>\<open>index\<close>.
\<close>

datatype handler = Cleanup | StartAt nat | EndAt_tr nat | ErrorAt_tr nat | EndAt_hl nat | Error_hl

record utterance =
  utt_text :: jsstring
  utt_voice :: "voice option"
  utt_rate :: jsstring
  utt_pitch :: jsstring
  onstart :: "handler option"
  onend :: "handler option"
  onerror :: "handler option"

datatype button_label = PauseLabel | ResumeLabel

datatype indicator_label = InitialLabel | TranslatingLabel | SpeakingLabel

text \<open>
  The module variables, the properties of the DOM elements that the scripts read or write, and
  the browser's \<^verbatim>\<open>speechSynthesis\<close>: its queue of utterances (the one being spoken
  first) and its \<^verbatim>\<open>paused\<close> flag.
\<close>

record state =
  voiceMap :: "jsstring \<rightharpoonup> voice"
  currentSegments :: "segment list"
  isTranslating :: bool
  textInput_value :: jsstring
  voiceSelectEn_value :: jsstring
  voiceSelectKo_value :: jsstring
  rateInput_value :: jsstring
  pitchInput_value :: jsstring
  translateToggle_checked :: bool
  statusIndicator_hidden :: bool
  statusIndicator_label :: indicator_label
  pauseBtn_disabled :: bool
  stopBtn_disabled :: bool
  playBtn_disabled :: bool
  pauseBtn_label :: button_label
  textInput_hidden :: bool
  displayArea_hidden :: bool
  displayArea_spans :: "jsstring list"
  highlighted :: "nat set"
  synth_queue :: "utterance list"
  synth_paused :: bool

subsection \<open>The speech engine\<close>

text \<open>
  \<^verbatim>\<open>synth.speaking\<close> holds while an utterance is spoken or queued, also when paused;
  \<^verbatim>\<open>synth.speak\<close> appends to the queue; \<^verbatim>\<open>synth.cancel\<close> empties it and leaves the
  paused flag as it is.
\<close>

definition synth_speaking :: "state \<Rightarrow> bool" where
  "synth_speaking st = (synth_queue st \<noteq> [])"

definition synth_speak :: "utterance \<Rightarrow> state \<Rightarrow> state" where
  "synth_speak u st = st\<lparr>synth_queue := synth_queue st @ [u]\<rparr>"

definition synth_cancel :: "state \<Rightarrow> state" where
  "synth_cancel st = st\<lparr>synth_queue := []\<rparr>"

definition synth_pause :: "state \<Rightarrow> state" where
  "synth_pause st = st\<lparr>synth_paused := True\<rparr>"

definition synth_resume :: "state \<Rightarrow> state" where
  "synth_resume st = st\<lparr>synth_paused := False\<rparr>"

subsection \<open>setSpeakingState\<close>

definition setSpeakingState :: "bool \<Rightarrow> state \<Rightarrow> state" where
  "setSpeakingState isSpeaking st =
     (if isSpeaking then
        st\<lparr>statusIndicator_hidden := False, pauseBtn_disabled := False,
           stopBtn_disabled := False, playBtn_disabled := True\<rparr>
      else
        st\<lparr>statusIndicator_hidden := True, pauseBtn_disabled := True,
           stopBtn_disabled := True, playBtn_disabled := False\<rparr>)"

definition setSpeakingState_tr :: "bool \<Rightarrow> state \<Rightarrow> state" where
  "setSpeakingState_tr isSpeaking st =
     (if isSpeaking then
        st\<lparr>statusIndicator_hidden := False, pauseBtn_disabled := False,
           stopBtn_disabled := False, playBtn_disabled := True\<rparr>
      else
        (let st1 = st\<lparr>statusIndicator_hidden := True, pauseBtn_disabled := True,
                       stopBtn_disabled := True, playBtn_disabled := False\<rparr>
         in if synth_speaking st1 then synth_cancel st1 else st1))"

definition setSpeakingState_hl :: "bool \<Rightarrow> state \<Rightarrow> state" where
  "setSpeakingState_hl isSpeaking st =
     (if isSpeaking then
        st\<lparr>statusIndicator_hidden := False, pauseBtn_disabled := False,
           stopBtn_disabled := False, playBtn_disabled := True\<rparr>
      else
        (let st1 = st\<lparr>statusIndicator_hidden := True, pauseBtn_disabled := True,
                       stopBtn_disabled := True, playBtn_disabled := False,
                       textInput_hidden := False, displayArea_hidden := True\<rparr>
         in if synth_speaking st1 then synth_cancel st1 else st1))"

text \<open>
  The aggregate state of the controller is what \<^verbatim>\<open>setSpeakingState\<close> last set: the play
  button is disabled from \<^verbatim>\<open>setSpeakingState(true)\<close> to \<^verbatim>\<open>setSpeakingState(false)\<close>,
  and no other statement writes it. While it is disabled the engine's paused flag tells
  \<open>Paused\<close> from \<open>Speaking\<close>.
\<close>

datatype status = Idle | Speaking | Paused

definition status :: "state \<Rightarrow> status" where
  "status st =
     (if \<not> playBtn_disabled st then Idle else if synth_paused st then Paused else Speaking)"

subsection \<open>The display area of the later revisions\<close>

definition prepareDisplayArea :: "segment list \<Rightarrow> state \<Rightarrow> state" where
  "prepareDisplayArea segments st =
     st\<lparr>textInput_hidden := True, displayArea_hidden := False,
        displayArea_spans := map seg_text segments, highlighted := {}\<rparr>"

definition highlightSegment :: "nat \<Rightarrow> state \<Rightarrow> state" where
  "highlightSegment index st =
     (let st1 = st\<lparr>highlighted := {}\<rparr> in
      if index < length (displayArea_spans st1) then st1\<lparr>highlighted := {index}\<rparr> else st1)"

definition unhighlightSegment :: "nat \<Rightarrow> state \<Rightarrow> state" where
  "unhighlightSegment index st =
     (if index < length (displayArea_spans st) then st\<lparr>highlighted := highlighted st - {index}\<rparr>
      else st)"

subsection \<open>Callbacks\<close>

fun run :: "handler \<Rightarrow> state \<Rightarrow> state" where
  "run Cleanup st = setSpeakingState False st"
| "run (StartAt index) st = highlightSegment index st"
| "run (EndAt_tr index) st =
     (let st1 = unhighlightSegment index st in
      if int index = int (length (currentSegments st1)) - 1 then setSpeakingState_tr False st1
      else st1)"
| "run (ErrorAt_tr index) st =
     (if int index = int (length (currentSegments st)) - 1 then setSpeakingState_tr False st
      else st)"
| "run (EndAt_hl index) st =
     (let st1 = unhighlightSegment index st in
      if int index = int (length (currentSegments st1)) - 1 then setSpeakingState_hl False st1
      else st1)"
| "run Error_hl st = setSpeakingState_hl False st"

definition dispatch :: "handler option \<Rightarrow> state \<Rightarrow> state" where
  "dispatch h st = (case h of None \<Rightarrow> st | Some f \<Rightarrow> run f st)"

text \<open>
  The engine ends the utterance at the head of its queue, with an \<^verbatim>\<open>end\<close> or an
  \<^verbatim>\<open>error\<close> event: the utterance leaves the queue and its callback runs.
\<close>

definition engine_end :: "state \<Rightarrow> state" where
  "engine_end st =
     (case synth_queue st of [] \<Rightarrow> st
      | u # q \<Rightarrow> dispatch (onend u) (st\<lparr>synth_queue := q\<rparr>))"

definition engine_error :: "state \<Rightarrow> state" where
  "engine_error st =
     (case synth_queue st of [] \<Rightarrow> st
      | u # q \<Rightarrow> dispatch (onerror u) (st\<lparr>synth_queue := q\<rparr>))"

subsection \<open>speak of main.js\<close>

text \<open>The utterance that one round of \<^verbatim>\<open>segments.forEach\<close> builds and submits.\<close>

definition newUtterance :: "jsstring \<Rightarrow> utterance" where
  "newUtterance t =
     \<lparr>utt_text = t, utt_voice = None, utt_rate = [], utt_pitch = [],
      onstart = None, onend = None, onerror = None\<rparr>"

definition assignVoice :: "segment \<Rightarrow> state \<Rightarrow> utterance \<Rightarrow> utterance" where
  "assignVoice segment st u =
     (if seg_type segment = Ko then
        (case voiceMap st (voiceSelectKo_value st) of
           Some v \<Rightarrow> u\<lparr>utt_voice := Some v\<rparr> | None \<Rightarrow> u)
      else
        (case voiceMap st (voiceSelectEn_value st) of
           Some v \<Rightarrow> u\<lparr>utt_voice := Some v\<rparr> | None \<Rightarrow> u))"

definition utterance_main :: "nat \<Rightarrow> state \<Rightarrow> nat \<times> segment \<Rightarrow> utterance" where
  "utterance_main n st p =
     (let index = fst p; segment = snd p;
          u1 = assignVoice segment st (newUtterance (seg_text segment));
          u2 = u1\<lparr>utt_rate := rateInput_value st, utt_pitch := pitchInput_value st\<rparr>
      in if int index = int n - 1 then u2\<lparr>onend := Some Cleanup, onerror := Some Cleanup\<rparr>
         else u2)"

definition speak :: "state \<Rightarrow> state" where
  "speak st =
     (if synth_speaking st then st
      else
        (let text = textInput_value st in
         if text \<noteq> [] then
           (let st1 = setSpeakingState True st;
                segments = parseText text
            in foldl (\<lambda>s p. synth_speak (utterance_main (length segments) s p) s) st1
                 (enumerate 0 segments))
         else st))"

subsection \<open>speak of the highlighting revision\<close>

definition utterance_hl :: "state \<Rightarrow> nat \<times> segment \<Rightarrow> utterance" where
  "utterance_hl st p =
     (let index = fst p; segment = snd p;
          u1 = assignVoice segment st (newUtterance (seg_text segment));
          u2 = u1\<lparr>utt_rate := rateInput_value st, utt_pitch := pitchInput_value st\<rparr>
      in u2\<lparr>onstart := Some (StartAt index), onend := Some (EndAt_hl index),
            onerror := Some Error_hl\<rparr>)"

definition speak_hl :: "state \<Rightarrow> state" where
  "speak_hl st =
     (if synth_speaking st then st
      else
        (let text = textInput_value st in
         if text \<noteq> [] then
           (let st1 = st\<lparr>currentSegments := parseText_sb text\<rparr>;
                st2 = prepareDisplayArea (currentSegments st1) st1;
                st3 = setSpeakingState_hl True st2
            in foldl (\<lambda>s p. synth_speak (utterance_hl s p) s) st3
                 (enumerate 0 (currentSegments st3)))
         else st))"

subsection \<open>speak of the translating revision\<close>

text \<open>
  This \<^verbatim>\<open>speak\<close> is asynchronous: with the translate toggle checked it stops at
  \<^verbatim>\<open>await translateText(text)\<close> and the page handles other events until the translation
  arrives. \<^verbatim>\<open>translateText\<close> catches every failure and answers with a string, so the
  awaited promise always resolves. \<open>speak_tr\<close> runs up to the \<^verbatim>\<open>await\<close> and returns the
  local \<^verbatim>\<open>text\<close> when it is suspended there; \<open>speak_tr_resume\<close> is the rest, run with the
  translation; \<open>speak_tr_tail\<close> is the part after the translation block.
\<close>

definition utterance_tr :: "state \<Rightarrow> nat \<times> segment \<Rightarrow> utterance" where
  "utterance_tr st p =
     (let index = fst p; segment = snd p;
          u1 = assignVoice segment st (newUtterance (seg_text segment));
          u2 = u1\<lparr>utt_rate := rateInput_value st, utt_pitch := pitchInput_value st\<rparr>
      in u2\<lparr>onstart := Some (StartAt index), onend := Some (EndAt_tr index),
            onerror := Some (ErrorAt_tr index)\<rparr>)"

definition speak_tr_tail :: "jsstring \<Rightarrow> state \<Rightarrow> state" where
  "speak_tr_tail text st =
     (if statusIndicator_hidden st then st
      else
        (let st1 = st\<lparr>currentSegments := parseText_sb text\<rparr>;
             st2 = prepareDisplayArea (currentSegments st1) st1
         in if statusIndicator_hidden st2 then st2
            else foldl (\<lambda>s p. synth_speak (utterance_tr s p) s) st2
                   (enumerate 0 (currentSegments st2))))"

definition speak_tr :: "state \<Rightarrow> state \<times> jsstring option" where
  "speak_tr st =
     (if synth_speaking st then (st, None)
      else
        (let text = textInput_value st in
         if text \<noteq> [] then
           (let st1 = setSpeakingState_tr True st in
            if translateToggle_checked st1 then
              (st1\<lparr>isTranslating := True, statusIndicator_label := TranslatingLabel\<rparr>, Some text)
            else (speak_tr_tail text st1, None))
         else (st, None)))"

definition speak_tr_resume :: "jsstring \<Rightarrow> jsstring \<Rightarrow> state \<Rightarrow> state" where
  "speak_tr_resume text translation st =
     (if \<not> isTranslating st then st\<lparr>isTranslating := False\<rparr>
      else
        (let text' = text @ [0x0A, 0x0A] @ translation;
             st1 = st\<lparr>isTranslating := False\<rparr>;
             st2 = st1\<lparr>statusIndicator_label := SpeakingLabel\<rparr>
         in speak_tr_tail text' st2))"

subsection \<open>Buttons\<close>

definition playBtn_click :: "state \<Rightarrow> state" where
  "playBtn_click st =
     (if synth_paused st then setSpeakingState True (synth_resume st) else speak st)"

definition pauseBtn_click :: "state \<Rightarrow> state" where
  "pauseBtn_click st =
     (if synth_speaking st \<and> \<not> synth_paused st then
        (synth_pause st)\<lparr>statusIndicator_hidden := True, pauseBtn_label := ResumeLabel\<rparr>
      else if synth_paused st then
        (synth_resume st)\<lparr>statusIndicator_hidden := False, pauseBtn_label := PauseLabel\<rparr>
      else st)"

definition stopBtn_click :: "state \<Rightarrow> state" where
  "stopBtn_click st =
     (if synth_speaking st then
        (setSpeakingState False (synth_cancel st))\<lparr>pauseBtn_label := PauseLabel\<rparr>
      else st)"

definition stopBtn_click_hl :: "state \<Rightarrow> state" where
  "stopBtn_click_hl st =
     (if synth_speaking st then
        (setSpeakingState_hl False (synth_cancel st))\<lparr>pauseBtn_label := PauseLabel\<rparr>
      else st)"

definition stopBtn_click_tr :: "state \<Rightarrow> state" where
  "stopBtn_click_tr st =
     (if isTranslating st then
        (setSpeakingState_tr False (st\<lparr>isTranslating := False\<rparr>))\<lparr>statusIndicator_hidden := True\<rparr>
      else if synth_speaking st then setSpeakingState_tr False (synth_cancel st)
      else st)"

text \<open>A page at rest, with one voice, named \<^verbatim>\<open>Sam\<close>, registered and selected for English.\<close>

definition sam :: voice where
  "sam = \<lparr>voice_name = [0x53, 0x61, 0x6D], voice_lang = [0x65, 0x6E], voice_default = True\<rparr>"

definition page0 :: state where
  "page0 =
     \<lparr>voiceMap = [ [0x53, 0x61, 0x6D] \<mapsto> sam],
      currentSegments = [], isTranslating = False,
      textInput_value = [],
      voiceSelectEn_value = [0x53, 0x61, 0x6D], voiceSelectKo_value = [],
      rateInput_value = [0x31], pitchInput_value = [0x31],
      translateToggle_checked = False,
      statusIndicator_hidden = True, statusIndicator_label = InitialLabel,
      pauseBtn_disabled = True, stopBtn_disabled = True, playBtn_disabled = False,
      pauseBtn_label = PauseLabel,
      textInput_hidden = False, displayArea_hidden = True, displayArea_spans = [],
      highlighted = {},
      synth_queue = [], synth_paused = False\<rparr>"

text \<open>
  The string of the spec's example in UTF-16: \<^verbatim>\<open>Hello\<close>, a space, the five Hangul
  syllables U+C548 U+B155 U+D558 U+C138 U+C694, a space, \<^verbatim>\<open>world\<close>.
\<close>

definition hello_text :: jsstring where
  "hello_text = [0x48, 0x65, 0x6C, 0x6C, 0x6F, 0x20,
                 0xC548, 0xB155, 0xD558, 0xC138, 0xC694, 0x20,
                 0x77, 0x6F, 0x72, 0x6C, 0x64]"

section \<open>Strings and character classes\<close>

lemma trim_blank_iff: "(0 < length (trim s)) = (\<exists>u\<in>set s. \<not> isWhiteSpace u)"
proof (cases "\<forall>u\<in>set s. isWhiteSpace u")
  case True
  then show ?thesis by (auto simp: trim_def dest: set_dropWhileD)
next
  case False
  then have ne: "dropWhile isWhiteSpace s \<noteq> []" by (simp add: dropWhile_eq_Nil_conv)
  then have "\<not> isWhiteSpace (hd (dropWhile isWhiteSpace s))" by (rule hd_dropWhile)
  moreover from ne have "hd (dropWhile isWhiteSpace s) \<in> set (dropWhile isWhiteSpace s)" by simp
  ultimately have "\<not> (\<forall>x\<in>set (dropWhile isWhiteSpace s). isWhiteSpace x)" by blast
  then have "trim s \<noteq> []" by (simp add: trim_def dropWhile_eq_Nil_conv)
  with False show ?thesis by simp
qed

lemma concat_codePoints: "concat (codePoints s) = s"
  by (induction s rule: codePoints.induct) auto

lemma codePoints_nonempty: "ch \<in> set (codePoints s) \<Longrightarrow> ch \<noteq> []"
  by (induction s rule: codePoints.induct) (auto split: if_splits)

lemma concat_codeUnits: "concat (codeUnits s) = s"
  by (induction s) (auto simp: codeUnits_def)

lemma korean_not_white: "koreanRegex u \<Longrightarrow> \<not> isWhiteSpace u"
  unfolding koreanRegex_def isWhiteSpace_def word_le_nat_alt
  by (auto)

lemma white_neutral: "isWhiteSpace u \<Longrightarrow> neutralRegex u"
  by (simp add: neutralRegex_def)

lemma neutral_not_korean: "neutralRegex u \<Longrightarrow> \<not> koreanRegex u"
  unfolding koreanRegex_def neutralRegex_def isWhiteSpace_def word_le_nat_alt
  by auto

lemma neutral_not_surrogate: "neutralRegex u \<Longrightarrow> \<not> isHighSurrogate u"
  unfolding isHighSurrogate_def neutralRegex_def isWhiteSpace_def word_le_nat_alt
  by auto

lemma sentenceEnd_neutral: "sentenceEndRegex u \<Longrightarrow> neutralRegex u"
  unfolding sentenceEndRegex_def neutralRegex_def isWhiteSpace_def by auto

section \<open>The segmenter of main.js on examples\<close>

text \<open>
  Claim C4. Segmenting \<^verbatim>\<open>Hello\<close>, space, five Hangul syllables, space,
  \<^verbatim>\<open>world\<close> with the \<^verbatim>\<open>parseText\<close> of main.js gives three segments, in order:
  \<^verbatim>\<open>Hello\<close> and its space tagged \<^verbatim>\<open>en\<close>, the syllables and their space tagged
  \<^verbatim>\<open>ko\<close>, and \<^verbatim>\<open>world\<close> tagged \<^verbatim>\<open>en\<close>: each space is absorbed into the
  segment open when it is read.
\<close>

theorem parseText_hello:
  "parseText hello_text =
    [\<lparr>seg_text = [0x48, 0x65, 0x6C, 0x6C, 0x6F, 0x20], seg_type = En\<rparr>,
     \<lparr>seg_text = [0xC548, 0xB155, 0xD558, 0xC138, 0xC694, 0x20], seg_type = Ko\<rparr>,
     \<lparr>seg_text = [0x77, 0x6F, 0x72, 0x6C, 0x64], seg_type = En\<rparr>]"
  by code_simp

section \<open>What the segmenters emit\<close>

lemma charType_cases: "charType ch = Ko \<or> charType ch = Neutral \<or> charType ch = En"
  by (simp add: charType_def)

lemma charType_visible:
  assumes "ch \<noteq> []" and "charType ch \<noteq> Neutral"
  shows "\<exists>u\<in>set ch. \<not> isWhiteSpace u"
proof (cases "test koreanRegex ch")
  case True
  then show ?thesis by (auto simp: test_def list_ex_iff dest: korean_not_white)
next
  case False
  with assms(2) have "\<not> test neutralRegex ch" by (simp add: charType_def split: if_splits)
  then have "\<forall>u\<in>set ch. \<not> isWhiteSpace u"
    by (auto simp: test_def list_ex_iff dest: white_neutral)
  with assms(1) show ?thesis by (cases ch) auto
qed

lemma scan_tags:
  "(\<forall>s\<in>set (fst (foldl scanChar ([], newSegment) chs)).
       0 < length (trim (seg_text s)) \<and> (seg_type s = Ko \<or> seg_type s = En))
   \<and> (seg_type (snd (foldl scanChar ([], newSegment) chs)) = Ko
      \<or> seg_type (snd (foldl scanChar ([], newSegment) chs)) = En
      \<or> snd (foldl scanChar ([], newSegment) chs) = newSegment)"
proof (induction chs rule: rev_induct)
  case Nil
  show ?case by simp
next
  case (snoc ch chs)
  obtain segs cur where sc: "foldl scanChar ([], newSegment) chs = (segs, cur)"
    by (cases "foldl scanChar ([], newSegment) chs")
  from snoc sc charType_cases [of ch] show ?case
    by (auto simp: scanChar_def Let_def newSegment_def)
qed

lemma parseText_tags:
  "s \<in> set (parseText text) \<Longrightarrow> 0 < length (trim (seg_text s)) \<and> (seg_type s = Ko \<or> seg_type s = En)"
  using scan_tags [of "codePoints text"]
  by (auto simp: parseText_def pushLast_def newSegment_def trim_def split: if_splits)

lemma scan_sb_tags:
  "(\<forall>s\<in>set (fst (foldl scanChar_sb ([], newSegment) chs)). seg_type s = Ko \<or> seg_type s = En)
   \<and> (seg_type (snd (foldl scanChar_sb ([], newSegment) chs)) = Ko
      \<or> seg_type (snd (foldl scanChar_sb ([], newSegment) chs)) = En
      \<or> snd (foldl scanChar_sb ([], newSegment) chs) = newSegment)"
proof (induction chs rule: rev_induct)
  case Nil
  show ?case by simp
next
  case (snoc ch chs)
  obtain segs cur where sc: "foldl scanChar_sb ([], newSegment) chs = (segs, cur)"
    by (cases "foldl scanChar_sb ([], newSegment) chs")
  from snoc sc charType_cases [of ch] show ?case
    by (auto simp: scanChar_sb_def Let_def newSegment_def)
qed

lemma parseText_sb_tags:
  "s \<in> set (parseText_sb text) \<Longrightarrow> 0 < length (trim (seg_text s)) \<and> (seg_type s = Ko \<or> seg_type s = En)"
  using scan_sb_tags [of "codeUnits text"]
  by (auto simp: parseText_sb_def closedSegments_sb_def pushRemaining_def newSegment_def split: if_splits)

text \<open>
  Claim C7. Every segment that \<^verbatim>\<open>parseText\<close> returns, in main.js and in the
  sentence-splitting revisions, has a text that is not empty after trimming and the tag
  \<^verbatim>\<open>ko\<close> or \<^verbatim>\<open>en\<close>, never \<^verbatim>\<open>unknown\<close>: blank runs are not emitted.
\<close>

theorem segments_visible_and_tagged:
  "(\<forall>s\<in>set (parseText text).
      0 < length (trim (seg_text s)) \<and> (seg_type s = Ko \<or> seg_type s = En))
   \<and> (\<forall>s\<in>set (parseText_sb text).
      0 < length (trim (seg_text s)) \<and> (seg_type s = Ko \<or> seg_type s = En))"
  using parseText_tags parseText_sb_tags by blast

theorem segments_visible_and_tagged_witness:
  "\<lparr>seg_text = [0xC548, 0x20], seg_type = Ko\<rparr> \<in> set (parseText [0x20, 0xC548, 0x20])
   \<and> \<lparr>seg_text = [0xC548, 0x20], seg_type = Ko\<rparr> \<in> set (parseText_sb [0x20, 0xC548, 0x20])
   \<and> 0 < length (trim [0xC548, 0x20 :: unit16])"
proof -
  have m: "\<lparr>seg_text = [0xC548, 0x20], seg_type = Ko\<rparr> \<in> set (parseText [0x20, 0xC548, 0x20])"
    by code_simp
  have m_sb: "\<lparr>seg_text = [0xC548, 0x20], seg_type = Ko\<rparr> \<in> set (parseText_sb [0x20, 0xC548, 0x20])"
    by code_simp
  from m m_sb segments_visible_and_tagged [of "[0x20, 0xC548, 0x20]"] show ?thesis
    by fastforce
qed

section \<open>The segments against the input\<close>

lemma scan_pieces:
  assumes "\<forall>ch\<in>set chs. ch \<noteq> []"
  shows "\<exists>ws. (\<forall>u\<in>set ws. isWhiteSpace u)
           \<and> concat chs = ws @ concat (map seg_text (fst (foldl scanChar ([], newSegment) chs)))
                             @ seg_text (snd (foldl scanChar ([], newSegment) chs))
           \<and> ((ws = [] \<and> fst (foldl scanChar ([], newSegment) chs) = [])
              \<or> (\<exists>u\<in>set (seg_text (snd (foldl scanChar ([], newSegment) chs))). \<not> isWhiteSpace u))"
  using assms
proof (induction chs rule: rev_induct)
  case Nil
  show ?case by (simp add: newSegment_def)
next
  case (snoc ch chs)
  obtain segs cur where sc: "foldl scanChar ([], newSegment) chs = (segs, cur)"
    by (cases "foldl scanChar ([], newSegment) chs")
  from snoc sc obtain ws where ws: "\<forall>u\<in>set ws. isWhiteSpace u"
    and eq: "concat chs = ws @ concat (map seg_text segs) @ seg_text cur"
    and disj: "(ws = [] \<and> segs = []) \<or> (\<exists>u\<in>set (seg_text cur). \<not> isWhiteSpace u)"
    by auto
  from snoc.prems have ne: "ch \<noteq> []" by simp
  show ?case
  proof (cases "seg_type cur \<noteq> Unknown \<and> charType ch \<noteq> Neutral \<and> charType ch \<noteq> seg_type cur")
    case False
    then have step: "scanChar (segs, cur) ch = (segs, \<lparr>seg_text = seg_text cur @ ch, seg_type = (if seg_type cur = Unknown then (if charType ch = Neutral then En else charType ch) else seg_type cur)\<rparr>)"
      by (auto simp: scanChar_def Let_def)
    from ws eq disj show ?thesis
      by (intro exI [of _ ws]) (auto simp: sc step)
  next
    case True
    then have vis: "\<exists>u\<in>set ch. \<not> isWhiteSpace u" using ne charType_visible by blast
    show ?thesis
    proof (cases "0 < length (trim (seg_text cur))")
      case t: True
      with True have step: "scanChar (segs, cur) ch = (segs @ [cur], \<lparr>seg_text = ch, seg_type = charType ch\<rparr>)"
        by (auto simp: scanChar_def Let_def)
      have res: "foldl scanChar ([], newSegment) (chs @ [ch]) = (segs @ [cur], \<lparr>seg_text = ch, seg_type = charType ch\<rparr>)"
        by (simp add: sc step)
      from ws eq vis show ?thesis
        unfolding res by (intro exI [of _ ws]) auto
    next
      case f: False
      with True have step: "scanChar (segs, cur) ch = (segs, \<lparr>seg_text = ch, seg_type = charType ch\<rparr>)"
        by (auto simp: scanChar_def Let_def)
      from f have blank: "\<forall>u\<in>set (seg_text cur). isWhiteSpace u"
        using trim_blank_iff [of "seg_text cur"] by auto
      with disj have e: "ws = []" "segs = []" by auto
      have res: "foldl scanChar ([], newSegment) (chs @ [ch]) = ([], \<lparr>seg_text = ch, seg_type = charType ch\<rparr>)"
        using step by (simp add: sc e)
      from eq e blank vis show ?thesis
        unfolding res by (intro exI [of _ "seg_text cur"]) auto
    qed
  qed
qed

lemma parseText_pieces:
  "\<exists>ws. (\<forall>u\<in>set ws. isWhiteSpace u) \<and> text = ws @ concat (map seg_text (parseText text))"
proof -
  obtain segs cur where sc: "foldl scanChar ([], newSegment) (codePoints text) = (segs, cur)"
    by (cases "foldl scanChar ([], newSegment) (codePoints text)")
  have "\<forall>ch\<in>set (codePoints text). ch \<noteq> []" using codePoints_nonempty by blast
  from scan_pieces [OF this] sc obtain ws where ws: "\<forall>u\<in>set ws. isWhiteSpace u"
    and eq: "text = ws @ concat (map seg_text segs) @ seg_text cur"
    and disj: "(ws = [] \<and> segs = []) \<or> (\<exists>u\<in>set (seg_text cur). \<not> isWhiteSpace u)"
    by (auto simp: concat_codePoints)
  show ?thesis
  proof (cases "0 < length (trim (seg_text cur))")
    case True
    then have res: "parseText text = segs @ [cur]"
      by (simp add: parseText_def pushLast_def sc)
    from ws eq show ?thesis
      unfolding res by (intro exI [of _ ws]) simp
  next
    case False
    then have blank: "\<forall>u\<in>set (seg_text cur). isWhiteSpace u"
      using trim_blank_iff [of "seg_text cur"] by auto
    with disj have e: "ws = []" "segs = []" by auto
    from False have res: "parseText text = []"
      using e by (simp add: parseText_def pushLast_def sc)
    from eq e blank show ?thesis
      unfolding res by (intro exI [of _ "seg_text cur"]) simp
  qed
qed

lemma scan_sb_concat:
  "concat (map seg_text (fst (foldl scanChar_sb ([], newSegment) chs)))
     @ seg_text (snd (foldl scanChar_sb ([], newSegment) chs)) = concat chs"
proof (induction chs rule: rev_induct)
  case Nil
  show ?case by (simp add: newSegment_def)
next
  case (snoc ch chs)
  obtain segs cur where sc: "foldl scanChar_sb ([], newSegment) chs = (segs, cur)"
    by (cases "foldl scanChar_sb ([], newSegment) chs")
  from snoc sc show ?case
    by (auto simp: scanChar_sb_def Let_def newSegment_def)
qed

lemma closedSegments_sb_concat: "concat (map seg_text (closedSegments_sb text)) = text"
  using scan_sb_concat [of "codeUnits text"]
  by (auto simp: closedSegments_sb_def pushRemaining_def concat_codeUnits)

lemma weave_prepend: "weave ((a @ g) # gs) ts = a @ weave (g # gs) ts"
  by (cases ts) auto

lemma weave_filter:
  "\<exists>gaps. length gaps = Suc (length (filter (\<lambda>s. 0 < length (trim (seg_text s))) xs))
      \<and> (\<forall>g\<in>set gaps. \<forall>u\<in>set g. isWhiteSpace u)
      \<and> concat (map seg_text xs)
          = weave gaps (map seg_text (filter (\<lambda>s. 0 < length (trim (seg_text s))) xs))"
proof (induction xs)
  case Nil
  show ?case by (intro exI [of _ "[ [] ]"]) simp
next
  case (Cons x xs)
  then obtain gaps where len: "length gaps = Suc (length (filter (\<lambda>s. 0 < length (trim (seg_text s))) xs))"
    and blank: "\<forall>g\<in>set gaps. \<forall>u\<in>set g. isWhiteSpace u"
    and eq: "concat (map seg_text xs) = weave gaps (map seg_text (filter (\<lambda>s. 0 < length (trim (seg_text s))) xs))"
    by blast
  from len obtain g gs where gaps: "gaps = g # gs" by (cases gaps) auto
  show ?case
  proof (cases "0 < length (trim (seg_text x))")
    case True
    with len blank eq show ?thesis
      by (intro exI [of _ "[] # gaps"]) (simp add: gaps)
  next
    case False
    then have "\<forall>u\<in>set (seg_text x). isWhiteSpace u"
      using trim_blank_iff [of "seg_text x"] by auto
    with False len blank eq show ?thesis
      by (intro exI [of _ "(seg_text x @ g) # gs"]) (auto simp: gaps weave_prepend)
  qed
qed

lemma parseText_sb_pieces:
  "\<exists>gaps. length gaps = Suc (length (parseText_sb text))
      \<and> (\<forall>g\<in>set gaps. \<forall>u\<in>set g. isWhiteSpace u)
      \<and> text = weave gaps (map seg_text (parseText_sb text))"
  using weave_filter [of "closedSegments_sb text"]
  by (simp add: parseText_sb_def closedSegments_sb_concat)

text \<open>
  Claim C1, as stated: the returned texts, concatenated, are the input without leading and
  trailing blank runs. The sentence-splitting \<^verbatim>\<open>parseText\<close> refutes it: from
  \<^verbatim>\<open>a.\<close>, a line break, \<^verbatim>\<open>b\<close> it returns \<^verbatim>\<open>a.\<close> and \<^verbatim>\<open>b\<close>, and the
  line break between them, which is neither leading nor trailing, is lost.
\<close>

theorem parseText_sb_drops_inner_break:
  "concat (map seg_text (parseText_sb [0x61, 0x2E, 0x0A, 0x62])) = [0x61, 0x2E, 0x62]
   \<and> \<not> isWhiteSpace 0x61 \<and> \<not> isWhiteSpace 0x62"
  by code_simp

text \<open>
  Claim C1, amended. For \<^verbatim>\<open>parseText\<close> of main.js the input is a run of whitespace
  followed by the returned texts in order: only a leading blank run can be missing. For the
  sentence-splitting \<^verbatim>\<open>parseText\<close> the input is the returned texts in order with a
  run of whitespace, possibly empty, before each of them and after the last. In both, no
  character is duplicated and no character other than whitespace is lost.
\<close>

theorem segments_cover_text:
  "(\<exists>ws. (\<forall>u\<in>set ws. isWhiteSpace u) \<and> text = ws @ concat (map seg_text (parseText text)))
   \<and> (\<exists>gaps. length gaps = Suc (length (parseText_sb text))
          \<and> (\<forall>g\<in>set gaps. \<forall>u\<in>set g. isWhiteSpace u)
          \<and> text = weave gaps (map seg_text (parseText_sb text)))"
  using parseText_pieces parseText_sb_pieces by blast

theorem segments_cover_text_witness:
  "(\<exists>ws. list_all isWhiteSpace ws \<and> [0x20, 0xC548, 0x2E, 0x0A, 0x62] = ws @ [0xC548, 0x2E, 0x0A, 0x62])
   \<and> (\<exists>gaps. length gaps = Suc 2 \<and> list_all (list_all isWhiteSpace) gaps
          \<and> [0x20, 0xC548, 0x2E, 0x0A, 0x62] = weave gaps [ [0xC548, 0x2E], [0x62] ])"
proof -
  have a: "map seg_text (parseText [0x20, 0xC548, 0x2E, 0x0A, 0x62]) = [ [0xC548, 0x2E, 0x0A], [0x62] ]"
    by code_simp
  have b: "map seg_text (parseText_sb [0x20, 0xC548, 0x2E, 0x0A, 0x62]) = [ [0xC548, 0x2E], [0x62] ]"
    by code_simp
  have c: "length (parseText_sb [0x20, 0xC548, 0x2E, 0x0A, 0x62]) = 2"
    using arg_cong [OF b, of length] by simp
  from segments_cover_text [of "[0x20, 0xC548, 0x2E, 0x0A, 0x62]"] show ?thesis
    unfolding a b c list_all_iff by simp
qed

section \<open>Inputs of neutral characters\<close>

lemma charType_neutral_unit: "neutralRegex u \<Longrightarrow> charType [u] = Neutral"
  by (simp add: charType_def test_def neutral_not_korean)

lemma codePoints_no_surrogate:
  "\<forall>u\<in>set s. \<not> isHighSurrogate u \<Longrightarrow> codePoints s = codeUnits s"
  by (induction s rule: codePoints.induct) (auto simp: codeUnits_def)

lemma scan_neutral:
  "seg_type cur \<noteq> Unknown \<Longrightarrow> \<forall>ch\<in>set chs. charType ch = Neutral \<Longrightarrow>
   foldl scanChar (segs, cur) chs = (segs, cur\<lparr>seg_text := seg_text cur @ concat chs\<rparr>)"
  by (induction chs arbitrary: cur) (auto simp: scanChar_def Let_def)

lemma parseText_neutral:
  assumes neutral: "\<forall>u\<in>set text. neutralRegex u"
    and visible: "\<exists>u\<in>set text. \<not> isWhiteSpace u"
  shows "parseText text = [\<lparr>seg_text = text, seg_type = En\<rparr>]"
proof -
  from visible obtain u us where tx: "text = u # us" by (cases "text") auto
  from neutral have cp: "codePoints text = codeUnits text"
    by (intro codePoints_no_surrogate) (auto dest: neutral_not_surrogate)
  from neutral tx have first: "scanChar ([], newSegment) [u] = ([], \<lparr>seg_text = [u], seg_type = En\<rparr>)"
    by (simp add: scanChar_def Let_def newSegment_def charType_neutral_unit)
  from neutral tx have rest: "\<forall>ch\<in>set (codeUnits us). charType ch = Neutral"
    by (auto simp: codeUnits_def charType_neutral_unit)
  have "foldl scanChar ([], newSegment) (codePoints text) = ([], \<lparr>seg_text = text, seg_type = En\<rparr>)"
    using scan_neutral [OF _ rest, of "\<lparr>seg_text = [u], seg_type = En\<rparr>" "[]"]
    by (simp add: cp [unfolded tx] tx codeUnits_def first concat_codeUnits [unfolded codeUnits_def])
  with visible show ?thesis
    using trim_blank_iff [of "text"] by (simp add: parseText_def pushLast_def)
qed

lemma scan_sb_neutral:
  "seg_type cur = Unknown \<or> seg_type cur = En \<Longrightarrow>
   \<forall>ch\<in>set chs. charType ch = Neutral \<and> \<not> test sentenceEndRegex ch \<Longrightarrow>
   foldl scanChar_sb (segs, cur) chs =
     (segs, \<lparr>seg_text = seg_text cur @ concat chs,
             seg_type = (if chs = [] then seg_type cur else En)\<rparr>)"
  by (induction chs arbitrary: cur) (auto simp: scanChar_sb_def Let_def)

lemma parseText_sb_neutral:
  assumes neutral: "\<forall>u\<in>set (xs @ [c]). neutralRegex u"
    and inner: "\<forall>u\<in>set xs. \<not> sentenceEndRegex u"
    and visible: "\<exists>u\<in>set (xs @ [c]). \<not> isWhiteSpace u"
  shows "parseText_sb (xs @ [c]) = [\<lparr>seg_text = xs @ [c], seg_type = En\<rparr>]"
proof -
  from neutral inner have pre: "\<forall>ch\<in>set (codeUnits xs). charType ch = Neutral \<and> \<not> test sentenceEndRegex ch"
    by (auto simp: codeUnits_def charType_neutral_unit test_def)
  have front: "foldl scanChar_sb ([], newSegment) (codeUnits xs) =
      ([], \<lparr>seg_text = xs, seg_type = (if xs = [] then Unknown else En)\<rparr>)"
    using scan_sb_neutral [OF _ pre, of newSegment "[]"]
    by (simp add: newSegment_def concat_codeUnits codeUnits_def)
  from neutral have c: "charType [c] = Neutral" by (simp add: charType_neutral_unit)
  have "closedSegments_sb (xs @ [c]) = [\<lparr>seg_text = xs @ [c], seg_type = En\<rparr>]"
    using front c
    by (simp add: closedSegments_sb_def codeUnits_def scanChar_sb_def Let_def pushRemaining_def newSegment_def)
  with visible show ?thesis
    using trim_blank_iff [of "xs @ [c]"] by (simp add: parseText_sb_def)
qed

text \<open>
  Claim C5, as stated: every non-empty input of neutral characters gives one segment, tagged
  \<^verbatim>\<open>en\<close>, holding the whole input. A single space is such an input and gives no
  segment; and the sentence-splitting \<^verbatim>\<open>parseText\<close> cuts \<^verbatim>\<open>1.2\<close> after the
  full stop.
\<close>

theorem neutral_input_not_one_segment:
  "parseText [0x20] = []
   \<and> parseText_sb [0x20] = []
   \<and> parseText_sb [0x31, 0x2E, 0x32] =
       [\<lparr>seg_text = [0x31, 0x2E], seg_type = En\<rparr>, \<lparr>seg_text = [0x32], seg_type = En\<rparr>]"
  by code_simp

text \<open>
  Claim C5, amended. An input of neutral characters of which one at least is not whitespace
  gives, with \<^verbatim>\<open>parseText\<close> of main.js, exactly one segment, tagged \<^verbatim>\<open>en\<close>, whose
  text is the whole input; the sentence-splitting \<^verbatim>\<open>parseText\<close> gives the same when no
  sentence end stands before the last character. The string \<^verbatim>\<open>123, 456!\<close> gives one
  \<^verbatim>\<open>en\<close> segment holding the whole string with both.
\<close>

theorem neutral_input_one_segment:
  "((\<forall>u\<in>set text. neutralRegex u) \<and> (\<exists>u\<in>set text. \<not> isWhiteSpace u)
      \<longrightarrow> parseText text = [\<lparr>seg_text = text, seg_type = En\<rparr>])
   \<and> ((\<forall>u\<in>set (xs @ [c]). neutralRegex u) \<and> (\<forall>u\<in>set xs. \<not> sentenceEndRegex u)
        \<and> (\<exists>u\<in>set (xs @ [c]). \<not> isWhiteSpace u)
      \<longrightarrow> parseText_sb (xs @ [c]) = [\<lparr>seg_text = xs @ [c], seg_type = En\<rparr>])
   \<and> parseText [0x31, 0x32, 0x33, 0x2C, 0x20, 0x34, 0x35, 0x36, 0x21] =
       [\<lparr>seg_text = [0x31, 0x32, 0x33, 0x2C, 0x20, 0x34, 0x35, 0x36, 0x21], seg_type = En\<rparr>]
   \<and> parseText_sb [0x31, 0x32, 0x33, 0x2C, 0x20, 0x34, 0x35, 0x36, 0x21] =
       [\<lparr>seg_text = [0x31, 0x32, 0x33, 0x2C, 0x20, 0x34, 0x35, 0x36, 0x21], seg_type = En\<rparr>]"
proof -
  have "parseText [0x31, 0x32, 0x33, 0x2C, 0x20, 0x34, 0x35, 0x36, 0x21] =
       [\<lparr>seg_text = [0x31, 0x32, 0x33, 0x2C, 0x20, 0x34, 0x35, 0x36, 0x21], seg_type = En\<rparr>]"
    by code_simp
  moreover have "parseText_sb [0x31, 0x32, 0x33, 0x2C, 0x20, 0x34, 0x35, 0x36, 0x21] =
       [\<lparr>seg_text = [0x31, 0x32, 0x33, 0x2C, 0x20, 0x34, 0x35, 0x36, 0x21], seg_type = En\<rparr>]"
    by code_simp
  ultimately show ?thesis
    using parseText_neutral [of "text"] parseText_sb_neutral [of xs c] by blast
qed

theorem neutral_input_one_segment_witness:
  "neutralRegex 0x20 \<and> neutralRegex 0x37 \<and> neutralRegex 0x2E
   \<and> \<not> sentenceEndRegex 0x20 \<and> \<not> sentenceEndRegex 0x37 \<and> \<not> isWhiteSpace 0x37
   \<and> parseText [0x20, 0x37, 0x2E] = [\<lparr>seg_text = [0x20, 0x37, 0x2E], seg_type = En\<rparr>]
   \<and> parseText_sb [0x20, 0x37, 0x2E] = [\<lparr>seg_text = [0x20, 0x37, 0x2E], seg_type = En\<rparr>]"
proof -
  have n: "neutralRegex 0x20 \<and> neutralRegex 0x37 \<and> neutralRegex 0x2E"
    by (simp add: neutralRegex_def isWhiteSpace_def)
  have e: "\<not> sentenceEndRegex 0x20 \<and> \<not> sentenceEndRegex 0x37"
    by (simp add: sentenceEndRegex_def)
  have v: "\<not> isWhiteSpace 0x37"
    by (simp add: isWhiteSpace_def)
  from n e v neutral_input_one_segment [of "[0x20, 0x37, 0x2E]" "[0x20, 0x37]" "0x2E"]
  show ?thesis by simp
qed

section \<open>Sentence ends in the sentence-splitting revisions\<close>

lemma sb_step:
  assumes "sentenceEndRegex u"
  shows "scanChar_sb (segments, cur) [u] =
     (segments @ [\<lparr>seg_text = seg_text cur @ [u],
                   seg_type = (if seg_type cur = Unknown then En else seg_type cur)\<rparr>], newSegment)"
proof -
  from assms have "charType [u] = Neutral" by (simp add: charType_neutral_unit sentenceEnd_neutral)
  with assms show ?thesis
    by (simp add: scanChar_sb_def Let_def test_def)
qed

lemma sb_close:
  assumes "sentenceEndRegex u"
  shows "foldl scanChar_sb ([], newSegment) (codeUnits (xs @ [u])) =
     (fst (foldl scanChar_sb ([], newSegment) (codeUnits xs))
        @ [\<lparr>seg_text = seg_text (snd (foldl scanChar_sb ([], newSegment) (codeUnits xs))) @ [u],
             seg_type = (if seg_type (snd (foldl scanChar_sb ([], newSegment) (codeUnits xs))) = Unknown then En
                         else seg_type (snd (foldl scanChar_sb ([], newSegment) (codeUnits xs))))\<rparr>],
      newSegment)"
  using sb_step [OF assms, of "fst (foldl scanChar_sb ([], newSegment) (codeUnits xs))" "snd (foldl scanChar_sb ([], newSegment) (codeUnits xs))"]
  by (simp add: codeUnits_def)

lemma sb_fresh:
  "\<not> sentenceEndRegex v \<Longrightarrow> scanChar_sb (segments, newSegment) [v] =
     (segments, \<lparr>seg_text = [v], seg_type = (if charType [v] = Neutral then En else charType [v])\<rparr>)"
  using charType_cases [of "[v]"]
  by (auto simp: scanChar_sb_def Let_def test_def newSegment_def)

lemma scanChar_sb_prefix:
  "scanChar_sb (segs, cur) ch
     = (segs @ fst (scanChar_sb ([], cur) ch), snd (scanChar_sb ([], cur) ch))"
  by (simp add: scanChar_sb_def Let_def)

lemma scan_sb_prefix:
  "foldl scanChar_sb (segs, cur) chs
     = (segs @ fst (foldl scanChar_sb ([], cur) chs), snd (foldl scanChar_sb ([], cur) chs))"
proof (induction chs rule: rev_induct)
  case Nil
  show ?case by simp
next
  case (snoc ch chs)
  obtain a c where ac: "foldl scanChar_sb ([], cur) chs = (a, c)"
    by (cases "foldl scanChar_sb ([], cur) chs")
  from snoc ac have "foldl scanChar_sb (segs, cur) chs = (segs @ a, c)" by simp
  then show ?case
    using scanChar_sb_prefix [of "segs @ a" c ch] scanChar_sb_prefix [of a c ch]
    by (simp add: ac)
qed

lemma closedSegments_sb_end:
  assumes "sentenceEndRegex u"
  shows "closedSegments_sb (xs @ [u]) =
     fst (foldl scanChar_sb ([], newSegment) (codeUnits xs))
       @ [\<lparr>seg_text = seg_text (snd (foldl scanChar_sb ([], newSegment) (codeUnits xs))) @ [u],
            seg_type =
              (if seg_type (snd (foldl scanChar_sb ([], newSegment) (codeUnits xs))) = Unknown
               then En else seg_type (snd (foldl scanChar_sb ([], newSegment) (codeUnits xs))))\<rparr>]"
proof -
  have e: "seg_text newSegment = []" by (simp add: newSegment_def)
  show ?thesis
    unfolding closedSegments_sb_def sb_close [OF assms] pushRemaining_def
    by (simp add: e)
qed

lemma closedSegments_sb_split:
  assumes "sentenceEndRegex u"
  shows "closedSegments_sb (xs @ u # ys) = closedSegments_sb (xs @ [u]) @ closedSegments_sb ys"
proof -
  obtain S where S: "foldl scanChar_sb ([], newSegment) (codeUnits (xs @ [u])) = (S, newSegment)"
    using sb_close [OF assms, of xs] by blast
  have front: "closedSegments_sb (xs @ [u]) = S"
    unfolding closedSegments_sb_def S pushRemaining_def by (simp add: newSegment_def)
  have units: "codeUnits (xs @ u # ys) = codeUnits (xs @ [u]) @ codeUnits ys"
    by (simp add: codeUnits_def)
  obtain A c where Ac: "foldl scanChar_sb ([], newSegment) (codeUnits ys) = (A, c)"
    by (cases "foldl scanChar_sb ([], newSegment) (codeUnits ys)")
  have "foldl scanChar_sb ([], newSegment) (codeUnits (xs @ u # ys))
          = foldl scanChar_sb (S, newSegment) (codeUnits ys)"
    by (simp only: units foldl_append S)
  also have "\<dots> = (S @ A, c)"
    using scan_sb_prefix [of S newSegment "codeUnits ys"] by (simp only: Ac fst_conv snd_conv)
  finally have whole: "foldl scanChar_sb ([], newSegment) (codeUnits (xs @ u # ys)) = (S @ A, c)" .
  have "closedSegments_sb (xs @ u # ys) = pushRemaining (S @ A, c)"
    unfolding closedSegments_sb_def whole ..
  also have "\<dots> = S @ pushRemaining (A, c)"
    by (simp add: pushRemaining_def)
  also have "pushRemaining (A, c) = closedSegments_sb ys"
    unfolding closedSegments_sb_def Ac ..
  finally show ?thesis by (simp only: front)
qed

lemma parseText_sb_split:
  assumes "sentenceEndRegex u"
  shows "parseText_sb (xs @ u # ys) = parseText_sb (xs @ [u]) @ parseText_sb ys"
  by (simp only: parseText_sb_def closedSegments_sb_split [OF assms, of xs ys] filter_append)

text \<open>
  Claim C6. In the sentence-splitting \<^verbatim>\<open>parseText\<close>, a full stop, an exclamation mark,
  a question mark or a line feed is always appended to the current segment, and the segment is
  closed right after it, whatever the language of the segment and of the characters that
  follow: the segments of a text are those of its part up to and including the sentence end,
  followed by those of the rest segmented on its own, from an empty segment of type
  \<^verbatim>\<open>unknown\<close>, so that the next segment takes its language from the first character
  after the sentence end. The same is said of the array before the final filter and of the
  loop: the segment closed ends with the sentence end.
\<close>

theorem sentence_end_closes_segment:
  "sentenceEndRegex u \<Longrightarrow>
   parseText_sb (xs @ u # ys) = parseText_sb (xs @ [u]) @ parseText_sb ys
   \<and> closedSegments_sb (xs @ u # ys) = closedSegments_sb (xs @ [u]) @ closedSegments_sb ys
   \<and> closedSegments_sb (xs @ [u]) =
       fst (foldl scanChar_sb ([], newSegment) (codeUnits xs))
         @ [\<lparr>seg_text = seg_text (snd (foldl scanChar_sb ([], newSegment) (codeUnits xs))) @ [u],
              seg_type =
                (if seg_type (snd (foldl scanChar_sb ([], newSegment) (codeUnits xs))) = Unknown
                 then En else seg_type (snd (foldl scanChar_sb ([], newSegment) (codeUnits xs))))\<rparr>]
   \<and> foldl scanChar_sb ([], newSegment) (codeUnits (xs @ [u])) =
     (fst (foldl scanChar_sb ([], newSegment) (codeUnits xs))
        @ [\<lparr>seg_text = seg_text (snd (foldl scanChar_sb ([], newSegment) (codeUnits xs))) @ [u],
             seg_type =
               (if seg_type (snd (foldl scanChar_sb ([], newSegment) (codeUnits xs))) = Unknown
                then En else seg_type (snd (foldl scanChar_sb ([], newSegment) (codeUnits xs))))\<rparr>],
      newSegment)
   \<and> scanChar_sb (segments, cur) [u] =
       (segments @ [\<lparr>seg_text = seg_text cur @ [u],
                     seg_type = (if seg_type cur = Unknown then En else seg_type cur)\<rparr>],
        newSegment)
   \<and> seg_type newSegment = Unknown
   \<and> (\<not> sentenceEndRegex v \<longrightarrow>
        scanChar_sb (segments, newSegment) [v] =
          (segments, \<lparr>seg_text = [v],
                       seg_type = (if charType [v] = Neutral then En else charType [v])\<rparr>))"
  using sb_close [of u xs] sb_step [of u segments cur] sb_fresh [of v segments]
    parseText_sb_split [of u xs ys] closedSegments_sb_split [of u xs ys]
    closedSegments_sb_end [of u xs]
  by (simp add: newSegment_def)

theorem sentence_end_closes_segment_witness:
  "sentenceEndRegex 0x2E
   \<and> parseText_sb [0x61, 0x2E, 0x62, 0xC548] =
       [\<lparr>seg_text = [0x61, 0x2E], seg_type = En\<rparr>] @
       [\<lparr>seg_text = [0x62], seg_type = En\<rparr>, \<lparr>seg_text = [0xC548], seg_type = Ko\<rparr>]
   \<and> closedSegments_sb [0x61, 0x2E] = [\<lparr>seg_text = [0x61, 0x2E], seg_type = En\<rparr>]
   \<and> foldl scanChar_sb ([], newSegment) (codeUnits [0x61, 0x2E]) =
       ([\<lparr>seg_text = [0x61, 0x2E], seg_type = En\<rparr>], newSegment)
   \<and> scanChar_sb ([], newSegment) [0xC548] = ([], \<lparr>seg_text = [0xC548], seg_type = Ko\<rparr>)"
proof -
  have e: "sentenceEndRegex 0x2E" by (simp add: sentenceEndRegex_def)
  have n: "\<not> sentenceEndRegex 0xC548" by (simp add: sentenceEndRegex_def)
  have f: "foldl scanChar_sb ([], newSegment) (codeUnits [0x61]) =
      ([], \<lparr>seg_text = [0x61], seg_type = En\<rparr>)"
    by code_simp
  have t: "charType [0xC548] = Ko" by code_simp
  have p: "parseText_sb [0x61, 0x2E] = [\<lparr>seg_text = [0x61, 0x2E], seg_type = En\<rparr>]"
    by code_simp
  have q: "parseText_sb [0x62, 0xC548] =
      [\<lparr>seg_text = [0x62], seg_type = En\<rparr>, \<lparr>seg_text = [0xC548], seg_type = Ko\<rparr>]"
    by code_simp
  from e n sentence_end_closes_segment [OF e, of "[0x61]" "[0x62, 0xC548]" "[]" newSegment "0xC548"]
  show ?thesis by (simp add: f t p q)
qed

section \<open>What speak submits\<close>

lemma assignVoice_queue [simp]: "assignVoice seg (st\<lparr>synth_queue := q\<rparr>) u = assignVoice seg st u"
  by (simp add: assignVoice_def)

lemma utterance_main_queue [simp]:
  "utterance_main n (st\<lparr>synth_queue := q\<rparr>) p = utterance_main n st p"
  by (simp add: utterance_main_def)

lemma utterance_hl_queue [simp]: "utterance_hl (st\<lparr>synth_queue := q\<rparr>) p = utterance_hl st p"
  by (simp add: utterance_hl_def)

lemma utterance_tr_queue [simp]: "utterance_tr (st\<lparr>synth_queue := q\<rparr>) p = utterance_tr st p"
  by (simp add: utterance_tr_def)

lemma submit_all:
  assumes "\<And>s q p. mk (s\<lparr>synth_queue := q\<rparr>) p = mk s p"
  shows "foldl (\<lambda>s p. synth_speak (mk s p) s) st ps
           = st\<lparr>synth_queue := synth_queue st @ map (mk st) ps\<rparr>"
proof (induction ps arbitrary: st)
  case Nil
  show ?case by simp
next
  case (Cons p ps)
  have "foldl (\<lambda>s p. synth_speak (mk s p) s) st (p # ps)
          = foldl (\<lambda>s p. synth_speak (mk s p) s) (synth_speak (mk st p) st) ps"
    by simp
  also have "\<dots> = (synth_speak (mk st p) st)
       \<lparr>synth_queue := synth_queue (synth_speak (mk st p) st)
                          @ map (mk (synth_speak (mk st p) st)) ps\<rparr>"
    by (rule Cons.IH)
  also have "\<dots> = st\<lparr>synth_queue := synth_queue st @ map (mk st) (p # ps)\<rparr>"
    by (simp add: synth_speak_def assms)
  finally show ?case .
qed

lemma speak_unfold:
  assumes "\<not> synth_speaking st" and "textInput_value st \<noteq> []"
  shows "speak st = (setSpeakingState True st)
     \<lparr>synth_queue := map (utterance_main (length (parseText (textInput_value st))) (setSpeakingState True st))
                        (enumerate 0 (parseText (textInput_value st)))\<rparr>"
proof -
  from assms(1) have q: "synth_queue (setSpeakingState True st) = []"
    by (simp add: synth_speaking_def setSpeakingState_def)
  show ?thesis
    using assms q
    by (simp add: speak_def Let_def submit_all [where mk = "utterance_main n" for n])
qed

lemma speak_hl_unfold:
  assumes "\<not> synth_speaking st" and "textInput_value st \<noteq> []"
  shows "speak_hl st =
     (setSpeakingState_hl True (prepareDisplayArea (parseText_sb (textInput_value st))
          (st\<lparr>currentSegments := parseText_sb (textInput_value st)\<rparr>)))
     \<lparr>synth_queue := map (utterance_hl (setSpeakingState_hl True (prepareDisplayArea (parseText_sb (textInput_value st))
          (st\<lparr>currentSegments := parseText_sb (textInput_value st)\<rparr>))))
                        (enumerate 0 (parseText_sb (textInput_value st)))\<rparr>"
proof -
  from assms(1) have q: "synth_queue st = []" by (simp add: synth_speaking_def)
  show ?thesis
    using assms q
    by (simp add: speak_hl_def Let_def submit_all [where mk = utterance_hl]
        setSpeakingState_hl_def prepareDisplayArea_def)
qed

lemma speak_tr_tail_unfold:
  assumes "\<not> statusIndicator_hidden st"
  shows "speak_tr_tail t st =
     (prepareDisplayArea (parseText_sb t) (st\<lparr>currentSegments := parseText_sb t\<rparr>))
     \<lparr>synth_queue := synth_queue st @ map (utterance_tr (prepareDisplayArea (parseText_sb t) (st\<lparr>currentSegments := parseText_sb t\<rparr>)))
                        (enumerate 0 (parseText_sb t))\<rparr>"
  using assms
  by (simp add: speak_tr_tail_def Let_def submit_all [where mk = utterance_tr] prepareDisplayArea_def)

lemma utt_fields_main:
  "utt_text (utterance_main n st (i, seg)) = seg_text seg
   \<and> utt_rate (utterance_main n st (i, seg)) = rateInput_value st
   \<and> utt_pitch (utterance_main n st (i, seg)) = pitchInput_value st
   \<and> utt_voice (utterance_main n st (i, seg)) =
        voiceMap st (if seg_type seg = Ko then voiceSelectKo_value st else voiceSelectEn_value st)"
  by (simp add: utterance_main_def Let_def assignVoice_def newUtterance_def split: option.splits)

lemma utt_fields_hl:
  "utt_text (utterance_hl st (i, seg)) = seg_text seg
   \<and> utt_rate (utterance_hl st (i, seg)) = rateInput_value st
   \<and> utt_pitch (utterance_hl st (i, seg)) = pitchInput_value st
   \<and> utt_voice (utterance_hl st (i, seg)) =
        voiceMap st (if seg_type seg = Ko then voiceSelectKo_value st else voiceSelectEn_value st)"
  by (simp add: utterance_hl_def Let_def assignVoice_def newUtterance_def split: option.splits)

lemma utt_fields_tr:
  "utt_text (utterance_tr st (i, seg)) = seg_text seg
   \<and> utt_rate (utterance_tr st (i, seg)) = rateInput_value st
   \<and> utt_pitch (utterance_tr st (i, seg)) = pitchInput_value st
   \<and> utt_voice (utterance_tr st (i, seg)) =
        voiceMap st (if seg_type seg = Ko then voiceSelectKo_value st else voiceSelectEn_value st)"
  by (simp add: utterance_tr_def Let_def assignVoice_def newUtterance_def split: option.splits)

lemma map_enumerate_fields:
  assumes "\<And>i seg. f (mk (i, seg)) = g seg"
  shows "map (\<lambda>u. f u) (map mk (enumerate n segs)) = map g segs"
  using assms by (induction segs arbitrary: n) auto

lemma speak_submits:
  assumes "\<not> synth_speaking st" and "textInput_value st \<noteq> []"
  shows "map (\<lambda>u. (utt_text u, utt_voice u, utt_rate u, utt_pitch u)) (synth_queue (speak st))
     = map (\<lambda>s. (seg_text s,
                  voiceMap st (if seg_type s = Ko then voiceSelectKo_value st else voiceSelectEn_value st),
                  rateInput_value st, pitchInput_value st))
         (parseText (textInput_value st))"
  by (simp add: speak_unfold [OF assms] del: map_map)
     (rule map_enumerate_fields, simp add: utt_fields_main setSpeakingState_def)

lemma speak_hl_submits:
  assumes "\<not> synth_speaking st" and "textInput_value st \<noteq> []"
  shows "map (\<lambda>u. (utt_text u, utt_voice u, utt_rate u, utt_pitch u)) (synth_queue (speak_hl st))
     = map (\<lambda>s. (seg_text s,
                  voiceMap st (if seg_type s = Ko then voiceSelectKo_value st else voiceSelectEn_value st),
                  rateInput_value st, pitchInput_value st))
         (parseText_sb (textInput_value st))"
  by (simp add: speak_hl_unfold [OF assms] del: map_map)
     (rule map_enumerate_fields, simp add: utt_fields_hl setSpeakingState_hl_def prepareDisplayArea_def)

lemma speak_tr_tail_submits:
  assumes "\<not> statusIndicator_hidden st" and "synth_queue st = []"
  shows "map (\<lambda>u. (utt_text u, utt_voice u, utt_rate u, utt_pitch u)) (synth_queue (speak_tr_tail t st))
     = map (\<lambda>s. (seg_text s,
                  voiceMap st (if seg_type s = Ko then voiceSelectKo_value st else voiceSelectEn_value st),
                  rateInput_value st, pitchInput_value st))
         (parseText_sb t)"
  by (simp add: speak_tr_tail_unfold [OF assms(1)] assms(2) del: map_map)
     (rule map_enumerate_fields, simp add: utt_fields_tr prepareDisplayArea_def)

lemma speak_tr_submits:
  assumes "\<not> synth_speaking st" and "textInput_value st \<noteq> []" and "\<not> translateToggle_checked st"
  shows "map (\<lambda>u. (utt_text u, utt_voice u, utt_rate u, utt_pitch u)) (synth_queue (fst (speak_tr st)))
     = map (\<lambda>s. (seg_text s,
                  voiceMap st (if seg_type s = Ko then voiceSelectKo_value st else voiceSelectEn_value st),
                  rateInput_value st, pitchInput_value st))
         (parseText_sb (textInput_value st))"
proof -
  let ?st1 = "setSpeakingState_tr True st"
  have h: "\<not> statusIndicator_hidden ?st1" by (simp add: setSpeakingState_tr_def)
  from assms(1) have q: "synth_queue ?st1 = []"
    by (simp add: setSpeakingState_tr_def synth_speaking_def)
  have t: "\<not> translateToggle_checked ?st1" using assms(3) by (simp add: setSpeakingState_tr_def)
  have "fst (speak_tr st) = speak_tr_tail (textInput_value st) ?st1"
    using assms t by (simp add: speak_tr_def Let_def)
  then show ?thesis
    using speak_tr_tail_submits [OF h q, of "textInput_value st"]
    by (simp add: setSpeakingState_tr_def)
qed

lemma speak_tr_resume_submits:
  assumes "isTranslating st" and "\<not> statusIndicator_hidden st" and "synth_queue st = []"
  shows "map (\<lambda>u. (utt_text u, utt_voice u, utt_rate u, utt_pitch u))
           (synth_queue (speak_tr_resume t translation st))
     = map (\<lambda>s. (seg_text s,
                  voiceMap st (if seg_type s = Ko then voiceSelectKo_value st else voiceSelectEn_value st),
                  rateInput_value st, pitchInput_value st))
         (parseText_sb (t @ [0x0A, 0x0A] @ translation))"
proof -
  let ?st2 = "st\<lparr>isTranslating := False, statusIndicator_label := SpeakingLabel\<rparr>"
  have "speak_tr_resume t translation st = speak_tr_tail (t @ [0x0A, 0x0A] @ translation) ?st2"
    using assms(1) by (simp add: speak_tr_resume_def Let_def)
  then show ?thesis
    using speak_tr_tail_submits [of ?st2 "t @ [0x0A, 0x0A] @ translation"] assms(2,3)
    by simp
qed

text \<open>
  Claim C10. \<^verbatim>\<open>speak\<close> submits one utterance for each segment, in the order of the
  segments, with the segment's text and the rate and pitch of the page; the utterance's voice
  is the entry of \<^verbatim>\<open>voiceMap\<close> under the name selected for the segment's language, and
  no voice at all when the map has no such entry. A failed lookup drops, adds or moves nothing.
  This holds for main.js, for the highlighting revision, and for the translating revision
  both without translation and when it resumes with the translation.
\<close>

theorem voice_lookup_never_blocks_submission:
  "\<not> synth_speaking st \<Longrightarrow> textInput_value st \<noteq> [] \<Longrightarrow>
   map (\<lambda>u. (utt_text u, utt_voice u, utt_rate u, utt_pitch u)) (synth_queue (speak st))
     = map (\<lambda>s. (seg_text s,
            voiceMap st (if seg_type s = Ko then voiceSelectKo_value st else voiceSelectEn_value st),
            rateInput_value st, pitchInput_value st))
         (parseText (textInput_value st))
   \<and> map (\<lambda>u. (utt_text u, utt_voice u, utt_rate u, utt_pitch u)) (synth_queue (speak_hl st))
     = map (\<lambda>s. (seg_text s,
            voiceMap st (if seg_type s = Ko then voiceSelectKo_value st else voiceSelectEn_value st),
            rateInput_value st, pitchInput_value st))
         (parseText_sb (textInput_value st))
   \<and> (\<not> translateToggle_checked st \<longrightarrow>
       map (\<lambda>u. (utt_text u, utt_voice u, utt_rate u, utt_pitch u)) (synth_queue (fst (speak_tr st)))
         = map (\<lambda>s. (seg_text s,
            voiceMap st (if seg_type s = Ko then voiceSelectKo_value st else voiceSelectEn_value st),
            rateInput_value st, pitchInput_value st))
             (parseText_sb (textInput_value st)))
   \<and> (isTranslating s2 \<and> \<not> statusIndicator_hidden s2 \<and> synth_queue s2 = [] \<longrightarrow>
       map (\<lambda>u. (utt_text u, utt_voice u, utt_rate u, utt_pitch u)) (synth_queue (speak_tr_resume t translation s2))
         = map (\<lambda>s. (seg_text s,
            voiceMap s2 (if seg_type s = Ko then voiceSelectKo_value s2 else voiceSelectEn_value s2),
            rateInput_value s2, pitchInput_value s2))
             (parseText_sb (t @ [0x0A, 0x0A] @ translation)))"
  using speak_submits [of st] speak_hl_submits [of st] speak_tr_submits [of st]
    speak_tr_resume_submits [of s2 t translation]
  by blast

theorem voice_lookup_never_blocks_submission_witness:
  "voiceMap page0 (voiceSelectKo_value page0) = None
   \<and> voiceMap page0 (voiceSelectEn_value page0) = Some sam
   \<and> map (\<lambda>u. (utt_text u, utt_voice u, utt_rate u, utt_pitch u)) (synth_queue (speak (page0\<lparr>textInput_value := [0x61, 0xC548]\<rparr>)))
       = [([0x61], Some sam, [0x31], [0x31]), ([0xC548], None, [0x31], [0x31])]
   \<and> map (\<lambda>u. (utt_text u, utt_voice u, utt_rate u, utt_pitch u)) (synth_queue (speak_hl (page0\<lparr>textInput_value := [0x61, 0xC548]\<rparr>)))
       = [([0x61], Some sam, [0x31], [0x31]), ([0xC548], None, [0x31], [0x31])]
   \<and> map (\<lambda>u. (utt_text u, utt_voice u, utt_rate u, utt_pitch u)) (synth_queue (fst (speak_tr (page0\<lparr>textInput_value := [0x61, 0xC548]\<rparr>))))
       = [([0x61], Some sam, [0x31], [0x31]), ([0xC548], None, [0x31], [0x31])]
   \<and> map (\<lambda>u. (utt_text u, utt_voice u, utt_rate u, utt_pitch u))
         (synth_queue (speak_tr_resume [0xC548] [0x68, 0x69] (page0\<lparr>isTranslating := True, statusIndicator_hidden := False, playBtn_disabled := True\<rparr>)))
       = [([0xC548, 0x0A], None, [0x31], [0x31]), ([0x68, 0x69], Some sam, [0x31], [0x31])]"
proof -
  have a: "parseText [0x61, 0xC548] =
      [\<lparr>seg_text = [0x61], seg_type = En\<rparr>, \<lparr>seg_text = [0xC548], seg_type = Ko\<rparr>]"
    by code_simp
  have b: "parseText_sb [0x61, 0xC548] =
      [\<lparr>seg_text = [0x61], seg_type = En\<rparr>, \<lparr>seg_text = [0xC548], seg_type = Ko\<rparr>]"
    by code_simp
  have c: "parseText_sb [0xC548, 0x0A, 0x0A, 0x68, 0x69] =
      [\<lparr>seg_text = [0xC548, 0x0A], seg_type = Ko\<rparr>, \<lparr>seg_text = [0x68, 0x69], seg_type = En\<rparr>]"
    by code_simp
  have h1: "\<not> synth_speaking (page0\<lparr>textInput_value := [0x61, 0xC548]\<rparr>)"
    by (simp add: synth_speaking_def page0_def)
  have h2: "textInput_value (page0\<lparr>textInput_value := [0x61, 0xC548]\<rparr>) \<noteq> []"
    by simp
  from voice_lookup_never_blocks_submission [OF h1 h2,
      of "page0\<lparr>isTranslating := True, statusIndicator_hidden := False, playBtn_disabled := True\<rparr>" "[0xC548]" "[0x68, 0x69]"]
  show ?thesis
    by (simp add: a b c page0_def)
qed

section \<open>Starting while speaking\<close>

text \<open>
  The test that \<^verbatim>\<open>speak\<close> makes before it logs \<^verbatim>\<open>already speaking\<close> is
  \<^verbatim>\<open>synth.speaking\<close>: while the engine has an utterance spoken or queued, \<^verbatim>\<open>speak\<close>
  returns the page as it is, in all three revisions.
\<close>

lemma speak_returns_while_engine_speaks:
  "synth_speaking st \<Longrightarrow> speak st = st \<and> speak_hl st = st \<and> speak_tr st = (st, None)"
  by (simp add: speak_def speak_hl_def speak_tr_def)


section \<open>Starting with nothing to say\<close>

lemma blank_text_sets_speaking:
  assumes "\<not> synth_speaking st" and "textInput_value st \<noteq> []" and "parseText (textInput_value st) = []"
    and "\<not> synth_paused st"
  shows "status (speak st) = Speaking \<and> synth_queue (speak st) = []"
  using assms by (simp add: speak_unfold status_def setSpeakingState_def)

text \<open>
  Claim C3 says that a start whose text gives no segment leaves the controller Idle. The
  code tests only \<^verbatim>\<open>text !== ''\<close>: on a page at rest whose text is one space,
  \<^verbatim>\<open>speak\<close> calls \<^verbatim>\<open>setSpeakingState(true)\<close> (before \<^verbatim>\<open>parseText\<close> in main.js
  and in the translating revision, after it in the highlighting revision), \<^verbatim>\<open>parseText\<close>
  returns no segment, nothing is submitted, and the aggregate state is Speaking with an empty
  queue, so that no callback will ever reset it. All three revisions do this.
\<close>

theorem blank_text_leaves_speaking:
  "status page0 = Idle \<and> parseText [0x20] = [] \<and> parseText_sb [0x20] = []
   \<and> status (speak (page0\<lparr>textInput_value := [0x20]\<rparr>)) = Speaking
   \<and> synth_queue (speak (page0\<lparr>textInput_value := [0x20]\<rparr>)) = []
   \<and> status (speak_hl (page0\<lparr>textInput_value := [0x20]\<rparr>)) = Speaking
   \<and> synth_queue (speak_hl (page0\<lparr>textInput_value := [0x20]\<rparr>)) = []
   \<and> status (fst (speak_tr (page0\<lparr>textInput_value := [0x20]\<rparr>))) = Speaking
   \<and> synth_queue (fst (speak_tr (page0\<lparr>textInput_value := [0x20]\<rparr>))) = []"
proof -
  have a: "parseText [0x20] = []" by code_simp
  have b: "parseText_sb [0x20] = []" by code_simp
  show ?thesis
    by (simp add: a b page0_def status_def speak_def speak_hl_def speak_tr_def speak_tr_tail_def Let_def
        synth_speaking_def setSpeakingState_def setSpeakingState_hl_def setSpeakingState_tr_def
        prepareDisplayArea_def enumerate_eq_zip)
qed

section \<open>Callbacks and the aggregate state\<close>

lemma status_setSpeaking [simp]:
  "status (setSpeakingState False st) = Idle"
  "status (setSpeakingState_tr False st) = Idle"
  "status (setSpeakingState_hl False st) = Idle"
  by (simp_all add: status_def setSpeakingState_def setSpeakingState_tr_def setSpeakingState_hl_def
      Let_def synth_cancel_def)

lemma status_highlight [simp]:
  "status (highlightSegment i st) = status st"
  "status (unhighlightSegment i st) = status st"
  by (simp_all add: status_def highlightSegment_def unhighlightSegment_def Let_def)

lemma run_keeps_idle: "status st = Idle \<Longrightarrow> status (run h st) = Idle"
  by (cases h) (simp_all add: Let_def)

lemma runs_keep_idle: "status st = Idle \<Longrightarrow> status (foldl (\<lambda>s h. run h s) st hs) = Idle"
  by (induction hs arbitrary: st) (simp_all add: run_keeps_idle)

lemma stop_main:
  "(synth_speaking st \<longrightarrow> synth_queue (stopBtn_click st) = [] \<and> status (stopBtn_click st) = Idle)
   \<and> (\<not> synth_speaking st \<longrightarrow> stopBtn_click st = st)
   \<and> stopBtn_click (stopBtn_click st) = stopBtn_click st"
  by (simp add: stopBtn_click_def status_def setSpeakingState_def synth_cancel_def synth_speaking_def)

lemma stop_hl:
  "(synth_speaking st \<longrightarrow> synth_queue (stopBtn_click_hl st) = [] \<and> status (stopBtn_click_hl st) = Idle)
   \<and> (\<not> synth_speaking st \<longrightarrow> stopBtn_click_hl st = st)
   \<and> stopBtn_click_hl (stopBtn_click_hl st) = stopBtn_click_hl st"
  by (simp add: stopBtn_click_hl_def status_def setSpeakingState_hl_def synth_cancel_def synth_speaking_def)

lemma stop_tr:
  "(synth_speaking st \<or> isTranslating st \<longrightarrow>
       synth_queue (stopBtn_click_tr st) = [] \<and> status (stopBtn_click_tr st) = Idle)
   \<and> (\<not> synth_speaking st \<and> \<not> isTranslating st \<longrightarrow> stopBtn_click_tr st = st)
   \<and> stopBtn_click_tr (stopBtn_click_tr st) = stopBtn_click_tr st"
  by (simp add: stopBtn_click_tr_def status_def setSpeakingState_tr_def synth_cancel_def synth_speaking_def Let_def)

lemma nth_submitted:
  "i < length segs \<Longrightarrow> map mk (enumerate 0 segs) ! i = mk (i, segs ! i)"
  by (simp add: nth_enumerate_eq)

lemma callbacks_main:
  assumes "\<not> synth_speaking st" and "textInput_value st \<noteq> []"
    and "i < length (parseText (textInput_value st))"
  shows "onend (synth_queue (speak st) ! i)
           = (if Suc i = length (parseText (textInput_value st)) then Some Cleanup else None)
       \<and> onerror (synth_queue (speak st) ! i)
           = (if Suc i = length (parseText (textInput_value st)) then Some Cleanup else None)"
  using assms(3)
  by (auto simp: speak_unfold [OF assms(1,2)] nth_enumerate_eq utterance_main_def Let_def assignVoice_def newUtterance_def split: option.splits)

lemma callbacks_main_status:
  assumes "\<not> synth_speaking st" and "textInput_value st \<noteq> []"
    and "i < length (parseText (textInput_value st))" and "status s = Speaking"
  shows "(status (dispatch (onend (synth_queue (speak st) ! i)) s) = Idle)
           = (Suc i = length (parseText (textInput_value st)))
       \<and> (status (dispatch (onerror (synth_queue (speak st) ! i)) s) = Idle)
           = (Suc i = length (parseText (textInput_value st)))"
  using callbacks_main [OF assms(1-3)] assms(4)
  by (simp add: dispatch_def)

lemma callbacks_tr:
  assumes "\<not> statusIndicator_hidden st" and "synth_queue st = []" and "i < length (parseText_sb t)"
  shows "onend (synth_queue (speak_tr_tail t st) ! i) = Some (EndAt_tr i)
       \<and> onerror (synth_queue (speak_tr_tail t st) ! i) = Some (ErrorAt_tr i)
       \<and> currentSegments (speak_tr_tail t st) = parseText_sb t"
  using assms(3)
  by (simp add: speak_tr_tail_unfold [OF assms(1)] assms(2) nth_enumerate_eq utterance_tr_def Let_def
      prepareDisplayArea_def)

lemma currentSegments_unhighlight [simp]:
  "currentSegments (unhighlightSegment i st) = currentSegments st"
  by (simp add: unhighlightSegment_def)

lemma callbacks_tr_status:
  assumes "status s = Speaking"
  shows "(status (run (EndAt_tr i) s) = Idle) = (Suc i = length (currentSegments s))
       \<and> (status (run (ErrorAt_tr i) s) = Idle) = (Suc i = length (currentSegments s))"
  using assms by (auto simp: Let_def)

lemma callbacks_hl:
  assumes "\<not> synth_speaking st" and "textInput_value st \<noteq> []"
    and "i < length (parseText_sb (textInput_value st))"
  shows "onend (synth_queue (speak_hl st) ! i) = Some (EndAt_hl i)
       \<and> onerror (synth_queue (speak_hl st) ! i) = Some Error_hl
       \<and> currentSegments (speak_hl st) = parseText_sb (textInput_value st)"
  using assms(3)
  by (simp add: speak_hl_unfold [OF assms(1,2)] nth_enumerate_eq utterance_hl_def Let_def
      prepareDisplayArea_def setSpeakingState_hl_def)

lemma callbacks_hl_status:
  assumes "status s = Speaking"
  shows "(status (run (EndAt_hl i) s) = Idle) = (Suc i = length (currentSegments s))
       \<and> status (run Error_hl s) = Idle"
  using assms by (auto simp: Let_def)

lemma pause_then_resume:
  assumes "synth_speaking st" and "status st = Speaking"
  shows "status (pauseBtn_click st) = Paused
       \<and> status (pauseBtn_click (pauseBtn_click st)) = Speaking
       \<and> synth_queue (pauseBtn_click (pauseBtn_click st)) = synth_queue st"
  using assms
  by (auto simp: pauseBtn_click_def status_def synth_speaking_def synth_pause_def synth_resume_def
      split: if_splits)

text \<open>
  Claim C2 says that an error callback on a segment that is not the last leaves the aggregate
  state Speaking. In the highlighting revision \<^verbatim>\<open>onerror\<close> calls
  \<^verbatim>\<open>setSpeakingState(false)\<close> whatever the index: with the text \<^verbatim>\<open>a.b\<close>, which gives
  two segments, the end of the first utterance leaves the state Speaking and one utterance
  queued, but an error of the first utterance makes the state Idle and cancels the second.
\<close>

theorem error_mid_queue_goes_idle:
  "length (synth_queue (speak_hl (page0\<lparr>textInput_value := [0x61, 0x2E, 0x62]\<rparr>))) = 2
   \<and> status (speak_hl (page0\<lparr>textInput_value := [0x61, 0x2E, 0x62]\<rparr>)) = Speaking
   \<and> status (engine_end (speak_hl (page0\<lparr>textInput_value := [0x61, 0x2E, 0x62]\<rparr>))) = Speaking
   \<and> length (synth_queue (engine_end (speak_hl (page0\<lparr>textInput_value := [0x61, 0x2E, 0x62]\<rparr>)))) = 1
   \<and> status (engine_error (speak_hl (page0\<lparr>textInput_value := [0x61, 0x2E, 0x62]\<rparr>))) = Idle
   \<and> synth_queue (engine_error (speak_hl (page0\<lparr>textInput_value := [0x61, 0x2E, 0x62]\<rparr>))) = []"
proof -
  have b: "parseText_sb [0x61, 0x2E, 0x62] =
     [\<lparr>seg_text = [0x61, 0x2E], seg_type = En\<rparr>, \<lparr>seg_text = [0x62], seg_type = En\<rparr>]"
    by code_simp
  show ?thesis
    by (simp add: b page0_def status_def speak_hl_def Let_def engine_end_def engine_error_def dispatch_def
        synth_speaking_def synth_speak_def synth_cancel_def setSpeakingState_hl_def
        prepareDisplayArea_def utterance_hl_def assignVoice_def newUtterance_def
        unhighlightSegment_def enumerate_eq_zip upt_rec)
qed

section \<open>Stop\<close>

text \<open>
  While the engine reports speaking (in the translating revision also while a translation is
  awaited) the stop handler cancels every queued and in-flight utterance and makes the
  aggregate state Idle, and then no sequence of callbacks, of whatever utterance, makes it
  Speaking again. While the engine is silent the handler does nothing. Stop is idempotent.
\<close>

lemma stop_while_engine_speaks:
  "(synth_speaking st \<longrightarrow>
      synth_queue (stopBtn_click st) = [] \<and> status (stopBtn_click st) = Idle
      \<and> status (foldl (\<lambda>s h. run h s) (stopBtn_click st) hs) = Idle
      \<and> synth_queue (stopBtn_click_hl st) = [] \<and> status (stopBtn_click_hl st) = Idle
      \<and> status (foldl (\<lambda>s h. run h s) (stopBtn_click_hl st) hs) = Idle)
   \<and> (synth_speaking st \<or> isTranslating st \<longrightarrow>
      synth_queue (stopBtn_click_tr st) = [] \<and> status (stopBtn_click_tr st) = Idle
      \<and> status (foldl (\<lambda>s h. run h s) (stopBtn_click_tr st) hs) = Idle)
   \<and> (\<not> synth_speaking s0 \<longrightarrow> stopBtn_click s0 = s0 \<and> stopBtn_click_hl s0 = s0)
   \<and> (\<not> synth_speaking s0 \<and> \<not> isTranslating s0 \<longrightarrow> stopBtn_click_tr s0 = s0)
   \<and> stopBtn_click (stopBtn_click st) = stopBtn_click st
   \<and> stopBtn_click_hl (stopBtn_click_hl st) = stopBtn_click_hl st
   \<and> stopBtn_click_tr (stopBtn_click_tr st) = stopBtn_click_tr st"
  using stop_main [of st] stop_hl [of st] stop_tr [of st] stop_main [of s0] stop_hl [of s0]
    stop_tr [of s0] runs_keep_idle [of "stopBtn_click st" hs]
    runs_keep_idle [of "stopBtn_click_hl st" hs] runs_keep_idle [of "stopBtn_click_tr st" hs]
  by blast

text \<open>
  Claim C9 says that stop from any state that is not Idle cancels everything and leads to
  Idle. The stop handlers act only when \<^verbatim>\<open>synth.speaking\<close> holds (or, in the translating
  revision, a translation is awaited). After \<^verbatim>\<open>speak\<close> on a text of one space the
  aggregate state is Speaking and the stop button is enabled, but the engine has nothing
  queued: the click changes nothing and the state stays Speaking, in all three revisions.
\<close>

theorem stop_ignored_when_engine_silent:
  "status (speak (page0\<lparr>textInput_value := [0x20]\<rparr>)) = Speaking
   \<and> \<not> stopBtn_disabled (speak (page0\<lparr>textInput_value := [0x20]\<rparr>))
   \<and> status (stopBtn_click (speak (page0\<lparr>textInput_value := [0x20]\<rparr>))) = Speaking
   \<and> stopBtn_click (speak (page0\<lparr>textInput_value := [0x20]\<rparr>))
       = speak (page0\<lparr>textInput_value := [0x20]\<rparr>)
   \<and> status (speak_hl (page0\<lparr>textInput_value := [0x20]\<rparr>)) = Speaking
   \<and> \<not> stopBtn_disabled (speak_hl (page0\<lparr>textInput_value := [0x20]\<rparr>))
   \<and> status (stopBtn_click_hl (speak_hl (page0\<lparr>textInput_value := [0x20]\<rparr>))) = Speaking
   \<and> status (fst (speak_tr (page0\<lparr>textInput_value := [0x20]\<rparr>))) = Speaking
   \<and> \<not> stopBtn_disabled (fst (speak_tr (page0\<lparr>textInput_value := [0x20]\<rparr>)))
   \<and> status (stopBtn_click_tr (fst (speak_tr (page0\<lparr>textInput_value := [0x20]\<rparr>)))) = Speaking"
proof -
  have a: "parseText [0x20] = []" by code_simp
  have b: "parseText_sb [0x20] = []" by code_simp
  show ?thesis
    by (simp add: a b page0_def status_def speak_def speak_hl_def speak_tr_def speak_tr_tail_def Let_def
        stopBtn_click_def stopBtn_click_hl_def stopBtn_click_tr_def
        synth_speaking_def setSpeakingState_def setSpeakingState_hl_def setSpeakingState_tr_def
        prepareDisplayArea_def enumerate_eq_zip)
qed

end
